theory Spec2Isabelle
  imports Main "HOL-Library.Word"
begin

unbundle bit_operations_syntax

section \<open>Data model\<close>

text \<open>
  The program is \<^verbatim>\<open>helper_functions.py\<close>: LSB steganography of a Fernet token in the
  samples of a 3-channel 8-bit image. Bytes and image samples are 8-bit words, Python
  integers are \<open>int\<close> or \<open>nat\<close>, a Python \<open>str\<close> is the list of its code points.
\<close>

type_synonym u8 = "8 word"
type_synonym bytes = "u8 list"
type_synonym pystr = "nat list"
type_synonym addr = nat

text \<open>A \<open>str\<close> literal of the source, as code points.\<close>

definition str_lit :: "string \<Rightarrow> pystr" where
  "str_lit s = map of_char s"

text \<open>A \<open>bytes\<close> literal of the source.\<close>

definition bytes_lit :: "string \<Rightarrow> bytes" where
  "bytes_lit s = map of_char s"

text \<open>
  The exceptions the two entry points can raise. The first four are Python's
  \<open>ValueError\<close> with the source's four messages; \<open>MessageTooLarge\<close> carries the two numbers
  its message prints, \<open>NotThreeChannels\<close> the shape it prints. \<open>UnicodeEncodeError\<close> is
  raised by \<open>str.encode\<close>, \<open>OverflowError\<close> by \<open>int.to_bytes\<close>, \<open>FernetKeyError\<close> is the
  \<open>ValueError\<close> of the constructor \<open>Fernet(key)\<close>, and \<open>Cv2Error\<close> is \<open>cv2.error\<close>.
\<close>

datatype exn =
    NotUint8
  | NotThreeChannels "nat list"
  | ImageTooSmall
  | MessageTooLarge nat nat
  | UnicodeEncodeError
  | OverflowError
  | FernetKeyError
  | Cv2Error

datatype dtype = UInt8 | OtherDtype

text \<open>
  A numpy array: its dtype, its shape and the buffer it views. Every array of the
  program is a C-contiguous view of a whole buffer, so the buffer's address is enough.
\<close>

record ndarray =
  nd_dtype :: dtype
  nd_shape :: "nat list"
  nd_base :: addr

text \<open>\<open>image.ndim\<close> and \<open>image.size\<close>.\<close>

definition ndim :: "ndarray \<Rightarrow> nat" where
  "ndim a = length (nd_shape a)"

definition nd_size :: "ndarray \<Rightarrow> nat" where
  "nd_size a = prod_list (nd_shape a)"

text \<open>
  What the program reads and writes outside its arguments: the sample buffers
  (addressed by their index; a new buffer is appended), the system's entropy
  (\<open>os.urandom\<close>) as an infinite sequence of bytes, and the clock that Fernet stamps
  tokens with.
\<close>

record world =
  heap :: "bytes list"
  rand :: "nat \<Rightarrow> u8"
  clock :: nat

definition alloc :: "bytes \<Rightarrow> world \<Rightarrow> addr \<times> world" where
  "alloc xs w = (length (heap w), w\<lparr>heap := heap w @ [xs]\<rparr>)"

definition buffer :: "world \<Rightarrow> ndarray \<Rightarrow> bytes" where
  "buffer w a = heap w ! nd_base a"

text \<open>numpy's invariant for a live array: its buffer exists and has \<open>size\<close> elements.\<close>

definition wf_ndarray :: "world \<Rightarrow> ndarray \<Rightarrow> bool" where
  "wf_ndarray w a \<longleftrightarrow> nd_base a < length (heap w) \<and> length (buffer w a) = nd_size a"

text \<open>\<open>os.urandom(n)\<close>: the next \<open>n\<close> bytes of the entropy sequence.\<close>

definition os_urandom :: "nat \<Rightarrow> world \<Rightarrow> bytes \<times> world" where
  "os_urandom n w = (map (rand w) [0..<n], w\<lparr>rand := (\<lambda>i. rand w (n + i))\<rparr>)"

section \<open>The libraries the program calls\<close>

text \<open>
  The code of \<open>cryptography\<close>, \<open>cv2\<close> and of the UTF-8 codec is not part of the
  repository: their functions are parameters of the model.
  \<^item> \<open>lib_utf8_encode\<close> is \<open>str.encode('utf-8')\<close>, \<open>None\<close> where it raises
    \<open>UnicodeEncodeError\<close>; \<open>lib_utf8_decode\<close> is \<open>bytes.decode('utf-8')\<close>, \<open>None\<close> where
    it raises \<open>UnicodeDecodeError\<close>.
  \<^item> \<open>lib_pbkdf2_hmac_sha256 length salt iterations key_material\<close> is
    \<open>PBKDF2HMAC(SHA256(), length, salt, iterations).derive(key_material)\<close>.
  \<^item> \<open>lib_fernet_key_ok key\<close> holds where the constructor \<open>Fernet(key)\<close> accepts the key
    (it raises \<open>ValueError\<close> otherwise).
  \<^item> \<open>lib_fernet_encrypt_from_parts key time iv data\<close> is the token \<open>Fernet(key)\<close> makes
    of \<open>data\<close> at that time with that initialization vector.
  \<^item> \<open>lib_fernet_decrypt key token\<close> is \<open>Fernet(key).decrypt(token)\<close>, \<open>None\<close> where it
    raises \<open>InvalidToken\<close>.
  \<^item> \<open>lib_cvtColor code shape samples\<close> is \<open>cv2.cvtColor\<close> on an array of that shape
    and those samples: the shape and samples of the new array, \<open>None\<close> where it raises.
\<close>

datatype cvt_code = COLOR_GRAY2BGR | COLOR_BGRA2BGR

record lib =
  lib_utf8_encode :: "pystr \<Rightarrow> bytes option"
  lib_utf8_decode :: "bytes \<Rightarrow> pystr option"
  lib_pbkdf2_hmac_sha256 :: "nat \<Rightarrow> bytes \<Rightarrow> nat \<Rightarrow> bytes \<Rightarrow> bytes"
  lib_fernet_key_ok :: "bytes \<Rightarrow> bool"
  lib_fernet_encrypt_from_parts :: "bytes \<Rightarrow> nat \<Rightarrow> bytes \<Rightarrow> bytes \<Rightarrow> bytes"
  lib_fernet_decrypt :: "bytes \<Rightarrow> bytes \<Rightarrow> bytes option"
  lib_cvtColor :: "cvt_code \<Rightarrow> nat list \<Rightarrow> bytes \<Rightarrow> (nat list \<times> bytes) option"

section \<open>Bits, bytes and base64\<close>

text \<open>\<open>np.unpackbits\<close>: the eight bits of every byte, most significant first, each as a sample 0 or 1.\<close>

definition unpack_byte :: "u8 \<Rightarrow> u8 list" where
  "unpack_byte x = map (\<lambda>k. drop_bit k x AND 1) [7, 6, 5, 4, 3, 2, 1, 0]"

definition unpackbits :: "bytes \<Rightarrow> u8 list" where
  "unpackbits xs = concat (map unpack_byte xs)"

text \<open>
  \<open>np.packbits\<close>: eight samples make a byte, most significant bit first, a sample
  counting as 1 when it is not zero; the last byte is padded with zero bits.
\<close>

definition pack_byte :: "u8 list \<Rightarrow> u8" where
  "pack_byte bs = foldl (\<lambda>acc b. push_bit 1 acc OR of_bool (b \<noteq> 0)) 0 (take 8 (bs @ replicate 8 0))"

function packbits :: "u8 list \<Rightarrow> bytes" where
  "packbits bs = (if bs = [] then [] else pack_byte (take 8 bs) # packbits (drop 8 bs))"
  by pat_completeness auto
termination
  by (relation "measure length") auto

declare packbits.simps [simp del]

text \<open>\<open>int.from_bytes(b, 'big')\<close>.\<close>

definition from_bytes_big :: "bytes \<Rightarrow> int" where
  "from_bytes_big bs = foldl (\<lambda>acc b. 256 * acc + uint b) 0 bs"

text \<open>\<open>n.to_bytes(4, 'big')\<close> for \<open>n \<ge> 0\<close>: \<open>OverflowError\<close> when \<open>n\<close> does not fit.\<close>

definition to_bytes4_big :: "nat \<Rightarrow> exn + bytes" where
  "to_bytes4_big n =
     (if n \<ge> 4294967296 then Inl OverflowError
      else Inr [of_nat (n div 16777216), of_nat (n div 65536), of_nat (n div 256), of_nat n])"

text \<open>\<open>base64.urlsafe_b64encode\<close>: the alphabet \<open>A-Z a-z 0-9 - _\<close>, padded with \<open>=\<close>.\<close>

definition b64_alphabet :: bytes where
  "b64_alphabet = bytes_lit ''ABCDEFGHIJKLMNOPQRSTUVWXYZabcdefghijklmnopqrstuvwxyz0123456789-_''"

definition b64_char :: "u8 \<Rightarrow> u8" where
  "b64_char v = b64_alphabet ! unat (v AND 63)"

fun urlsafe_b64encode :: "bytes \<Rightarrow> bytes" where
  "urlsafe_b64encode [] = []"
| "urlsafe_b64encode [a] =
     [b64_char (drop_bit 2 a), b64_char (push_bit 4 (a AND 3)), 61, 61]"
| "urlsafe_b64encode [a, b] =
     [b64_char (drop_bit 2 a), b64_char (push_bit 4 (a AND 3) OR drop_bit 4 b),
      b64_char (push_bit 2 (b AND 15)), 61]"
| "urlsafe_b64encode (a # b # c # rest) =
     [b64_char (drop_bit 2 a), b64_char (push_bit 4 (a AND 3) OR drop_bit 4 b),
      b64_char (push_bit 2 (b AND 15) OR drop_bit 6 c), b64_char (c AND 63)]
     @ urlsafe_b64encode rest"

section \<open>The program\<close>

text \<open>\<open>MAGIC_HEADER = b"STG1"\<close>.\<close>

definition MAGIC_HEADER :: bytes where
  "MAGIC_HEADER = bytes_lit ''STG1''"

text \<open>The three strings \<open>decode_image\<close> and \<open>decrypt_message\<close> return on failure.\<close>

definition err_no_data :: pystr where
  "err_no_data = str_lit ''Error: No valid steganography data found.''"

definition err_incomplete :: pystr where
  "err_incomplete = str_lit ''Error: Encoded data incomplete or corrupted.''"

definition err_password :: pystr where
  "err_password = str_lit ''Error: Incorrect password or corrupted data.''"

text \<open>
  \<open>derive_key\<close>: PBKDF2-HMAC-SHA256 of the encoded password, 32 bytes, 100000 iterations,
  then URL-safe base64. \<open>password.encode()\<close> can raise. Like every function of the
  program it runs in the world; its lines call neither \<open>os.urandom\<close> nor the clock nor
  write a buffer, so the world it returns is the one it was called in.
\<close>

definition derive_key :: "lib \<Rightarrow> pystr \<Rightarrow> bytes \<Rightarrow> world \<Rightarrow> (exn + bytes) \<times> world" where
  "derive_key L password salt w =
     (case lib_utf8_encode L password of
        None \<Rightarrow> (Inl UnicodeEncodeError, w)
      | Some pw \<Rightarrow>
          (Inr (urlsafe_b64encode (lib_pbkdf2_hmac_sha256 L 32 salt 100000 pw)), w))"

text \<open>
  \<open>Fernet(key).encrypt(data)\<close> draws a 16-byte initialization vector from \<open>os.urandom\<close>
  and reads the clock.
\<close>

definition fernet_encrypt :: "lib \<Rightarrow> bytes \<Rightarrow> bytes \<Rightarrow> world \<Rightarrow> bytes \<times> world" where
  "fernet_encrypt L key data w =
     (let (iv, w1) = os_urandom 16 w
      in (lib_fernet_encrypt_from_parts L key (clock w) iv data, w1))"

text \<open>\<open>encrypt_message\<close>: salt, key, \<open>Fernet(key)\<close>, \<open>message.encode('utf-8')\<close>, token, in that order.\<close>

definition encrypt_message :: "lib \<Rightarrow> pystr \<Rightarrow> pystr \<Rightarrow> world \<Rightarrow> (exn + bytes) \<times> world" where
  "encrypt_message L message password w =
     (let (salt, w1) = os_urandom 16 w in
      (case derive_key L password salt w1 of
         (Inl e, w2) \<Rightarrow> (Inl e, w2)
       | (Inr key, w2) \<Rightarrow>
           if \<not> lib_fernet_key_ok L key then (Inl FernetKeyError, w2)
           else (case lib_utf8_encode L message of
                   None \<Rightarrow> (Inl UnicodeEncodeError, w2)
                 | Some data \<Rightarrow>
                     let (token, w3) = fernet_encrypt L key data w2
                     in (Inr (salt @ token), w3))))"

text \<open>
  \<open>decrypt_message\<close>: everything after the length test runs inside
  \<open>try ... except Exception\<close>, so every exception becomes the one returned string.
  Only its result is modelled, as for \<open>decode_image\<close>.
\<close>

definition decrypt_message :: "lib \<Rightarrow> bytes \<Rightarrow> pystr \<Rightarrow> world \<Rightarrow> pystr" where
  "decrypt_message L data password w =
     (if length data < 16 then err_password
      else
        let salt = take 16 data; token = drop 16 data in
        (case derive_key L password salt w of
           (Inl e, w1) \<Rightarrow> err_password
         | (Inr key, w1) \<Rightarrow>
             if \<not> lib_fernet_key_ok L key then err_password
             else (case lib_fernet_decrypt L key token of
                     None \<Rightarrow> err_password
                   | Some plain \<Rightarrow>
                       (case lib_utf8_decode L plain of
                          None \<Rightarrow> err_password
                        | Some s \<Rightarrow> s))))"

text \<open>
  \<open>ensure_rgb_uint8\<close>: the dtype test, the two conversions (each a new array made by
  \<open>cv2.cvtColor\<close>), the test for three channels. A 3-channel image comes back as the
  same object.
\<close>

definition cvtColor :: "lib \<Rightarrow> cvt_code \<Rightarrow> ndarray \<Rightarrow> world \<Rightarrow> (exn + ndarray) \<times> world" where
  "cvtColor L code img w =
     (case lib_cvtColor L code (nd_shape img) (buffer w img) of
        None \<Rightarrow> (Inl Cv2Error, w)
      | Some (shp, samples) \<Rightarrow>
          let (a, w1) = alloc samples w
          in (Inr \<lparr>nd_dtype = UInt8, nd_shape = shp, nd_base = a\<rparr>, w1))"

definition ensure_rgb_uint8 :: "lib \<Rightarrow> ndarray \<Rightarrow> world \<Rightarrow> (exn + ndarray) \<times> world" where
  "ensure_rgb_uint8 L img w =
     (if nd_dtype img \<noteq> UInt8 then (Inl NotUint8, w)
      else
        let (r, w1) =
          (if ndim img = 2 then cvtColor L COLOR_GRAY2BGR img w
           else if ndim img = 3 \<and> nd_shape img ! 2 = 4 then cvtColor L COLOR_BGRA2BGR img w
           else (Inr img, w))
        in (case r of
              Inl e \<Rightarrow> (Inl e, w1)
            | Inr img1 \<Rightarrow>
                if ndim img1 \<noteq> 3 \<or> nd_shape img1 ! 2 \<noteq> 3
                then (Inl (NotThreeChannels (nd_shape img1)), w1)
                else (Inr img1, w1)))"

text \<open>
  Lines 87 to 96 of \<open>encode\<close>: the encrypted payload, the magic signature in front of
  it, and the 4-byte big-endian length header in front of both.
\<close>

definition full_payload :: "lib \<Rightarrow> pystr \<Rightarrow> pystr \<Rightarrow> world \<Rightarrow> (exn + bytes) \<times> world" where
  "full_payload L message password w =
     (case encrypt_message L message password w of
        (Inl e, w1) \<Rightarrow> (Inl e, w1)
      | (Inr encrypted_payload, w1) \<Rightarrow>
          let payload_content = MAGIC_HEADER @ encrypted_payload;
              payload_length = length payload_content
          in (case to_bytes4_big payload_length of
                Inl e \<Rightarrow> (Inl e, w1)
              | Inr length_header \<Rightarrow> (Inr (length_header @ payload_content), w1)))"

text \<open>\<open>image.flatten()\<close>: a copy of the samples in a new one-dimensional array.\<close>

definition flatten :: "ndarray \<Rightarrow> world \<Rightarrow> ndarray \<times> world" where
  "flatten img w =
     (let (a, w1) = alloc (buffer w img) w
      in (\<lparr>nd_dtype = nd_dtype img, nd_shape = [nd_size img], nd_base = a\<rparr>, w1))"

text \<open>
  Lines 114 to 116: \<open>flat_image[:n]\<close> is a view of the first \<open>n\<close> samples of the
  buffer of \<open>flat_image\<close>, and \<open>&=\<close> and \<open>|=\<close> write through it.
\<close>

definition embed_bits :: "u8 list \<Rightarrow> bytes \<Rightarrow> bytes" where
  "embed_bits payload_bits samples =
     map2 (\<lambda>x b. (x AND 0xFE) OR b) (take (length payload_bits) samples) payload_bits
     @ drop (length payload_bits) samples"

definition write_lsb_view :: "ndarray \<Rightarrow> u8 list \<Rightarrow> world \<Rightarrow> world" where
  "write_lsb_view flat_image payload_bits w =
     w\<lparr>heap := (heap w)[nd_base flat_image := embed_bits payload_bits (buffer w flat_image)]\<rparr>"

text \<open>\<open>encode\<close>. An exception leaves the world as it is where it is raised.\<close>

definition encode :: "lib \<Rightarrow> ndarray \<Rightarrow> pystr \<Rightarrow> pystr \<Rightarrow> world \<Rightarrow> (exn + ndarray) \<times> world" where
  "encode L img0 message password w =
     (case ensure_rgb_uint8 L img0 w of
        (Inl e, w1) \<Rightarrow> (Inl e, w1)
      | (Inr img, w1) \<Rightarrow>
          if nd_size img < 64 then (Inl ImageTooSmall, w1)
          else
            (case full_payload L message password w1 of
               (Inl e, w2) \<Rightarrow> (Inl e, w2)
             | (Inr full, w2) \<Rightarrow>
                 let payload_bits = unpackbits full;
                     needed_bits = length payload_bits;
                     total_bits_available = nd_size img
                 in if needed_bits > total_bits_available
                    then (Inl (MessageTooLarge needed_bits total_bits_available), w2)
                    else
                      let (flat_image, w3) = flatten img w2;
                          w4 = write_lsb_view flat_image payload_bits w3;
                          encoded_image = flat_image\<lparr>nd_shape := nd_shape img\<rparr>
                      in (Inr encoded_image, w4)))"

text \<open>
  \<open>decode_image\<close>. It writes to no buffer that existed before the call (\<open>flatten\<close>
  copies), so only its result is modelled. The lengths are Python integers:
  \<open>len(flat_image) - 32\<close> is negative on a short image and \<open>//\<close> rounds down.
\<close>

definition decode_image :: "lib \<Rightarrow> ndarray \<Rightarrow> pystr \<Rightarrow> world \<Rightarrow> exn + pystr" where
  "decode_image L img0 password w =
     (case ensure_rgb_uint8 L img0 w of
        (Inl e, w1) \<Rightarrow> Inl e
      | (Inr img, w1) \<Rightarrow>
          let flat_image = buffer w1 img;
              header_bits = map (\<lambda>x. x AND 1) (take 32 flat_image);
              header_bytes = packbits header_bits;
              payload_length = from_bytes_big header_bytes
          in if payload_length \<le> 0 then Inr err_no_data
             else
               let max_payload_bytes = (int (length flat_image) - 32) div 8
               in if payload_length > max_payload_bytes then Inr err_incomplete
                  else
                    let total_payload_bits = payload_length * 8;
                        end_index = 32 + total_payload_bits
                    in if end_index > int (length flat_image) then Inr err_incomplete
                       else
                         let payload_bits =
                               map (\<lambda>x. x AND 1) (drop 32 (take (nat end_index) flat_image));
                             payload_bytes = packbits payload_bits
                         in if length payload_bytes < 4 \<or> take 4 payload_bytes \<noteq> MAGIC_HEADER
                            then Inr err_no_data
                            else
                              let encrypted_data = drop 4 payload_bytes
                              in Inr (decrypt_message L encrypted_data password w1))"

section \<open>What the claims speak of\<close>

text \<open>
  The image the core is handed: 8-bit, three dimensions, three channels. This is the
  test \<open>ensure_rgb_uint8\<close> ends with.
\<close>

definition normalized :: "ndarray \<Rightarrow> bool" where
  "normalized a \<longleftrightarrow> nd_dtype a = UInt8 \<and> ndim a = 3 \<and> nd_shape a ! 2 = 3"

text \<open>The least significant bits of the first \<open>n\<close> samples, packed into bytes.\<close>

definition lsb_bytes :: "nat \<Rightarrow> bytes \<Rightarrow> bytes" where
  "lsb_bytes n samples = packbits (map (\<lambda>x. x AND 1) (take n samples))"

text \<open>
  What \<open>decode_image\<close> reads from the samples before it decrypts: the length header
  (\<open>payload_length\<close>) and the bytes after it (\<open>payload_bytes\<close>).
\<close>

definition header_length :: "bytes \<Rightarrow> int" where
  "header_length samples = from_bytes_big (lsb_bytes 32 samples)"

definition payload_bytes_of :: "bytes \<Rightarrow> bytes" where
  "payload_bytes_of samples =
     packbits (map (\<lambda>x. x AND 1) (drop 32 (take (nat (32 + header_length samples * 8)) samples)))"

text \<open>
  The contracts of the libraries that the claims rely on. Fernet opens what it sealed
  under the same key; decoding UTF-8 inverts encoding; PBKDF2 returns the 32 bytes it is
  asked for; and, HMAC padding a key shorter than its 64-byte block with zero bytes
  (RFC 2104), PBKDF2-HMAC derives the same bytes from a short password and from that
  password followed by a zero byte.
\<close>

definition fernet_roundtrip :: "lib \<Rightarrow> bool" where
  "fernet_roundtrip L \<longleftrightarrow>
     (\<forall>key t iv data. lib_fernet_key_ok L key \<longrightarrow>
        lib_fernet_decrypt L key (lib_fernet_encrypt_from_parts L key t iv data) = Some data)"

definition utf8_roundtrip :: "lib \<Rightarrow> bool" where
  "utf8_roundtrip L \<longleftrightarrow>
     (\<forall>s b. lib_utf8_encode L s = Some b \<longrightarrow> lib_utf8_decode L b = Some s)"

definition pbkdf2_length_ok :: "lib \<Rightarrow> bool" where
  "pbkdf2_length_ok L \<longleftrightarrow>
     (\<forall>salt c pw. length (lib_pbkdf2_hmac_sha256 L 32 salt c pw) = 32)"


section \<open>A small instance of the libraries\<close>

text \<open>
  To run the program on concrete inputs the library functions need values. This
  instance keeps their contracts and nothing else: the codec is UTF-8 restricted to
  ASCII, the key derivation is the password's 64-byte HMAC key block (the password cut
  or padded with zeros) followed by the salt, cut or padded with zeros to the length
  asked for, a token is the key followed by the data, a key is accepted when it has the
  44 bytes of an encoded 32-byte key, and the two colour conversions copy the grey
  sample three times and drop the fourth channel.
\<close>

definition stub_utf8_encode :: "pystr \<Rightarrow> bytes option" where
  "stub_utf8_encode s = (if list_all (\<lambda>c. c < 128) s then Some (map of_nat s) else None)"

definition stub_utf8_decode :: "bytes \<Rightarrow> pystr option" where
  "stub_utf8_decode b = (if list_all (\<lambda>x. unat x < 128) b then Some (map unat b) else None)"

definition stub_pbkdf2 :: "nat \<Rightarrow> bytes \<Rightarrow> nat \<Rightarrow> bytes \<Rightarrow> bytes" where
  "stub_pbkdf2 n salt c pw = take n (take 64 (pw @ replicate 64 0) @ salt @ replicate n 0)"

definition stub_fernet_decrypt :: "bytes \<Rightarrow> bytes \<Rightarrow> bytes option" where
  "stub_fernet_decrypt key token =
     (if length key = 44 \<and> take 44 token = key then Some (drop 44 token) else None)"

fun drop_alpha :: "bytes \<Rightarrow> bytes" where
  "drop_alpha (b # g # r # a # rest) = b # g # r # drop_alpha rest"
| "drop_alpha _ = []"

fun stub_cvtColor :: "cvt_code \<Rightarrow> nat list \<Rightarrow> bytes \<Rightarrow> (nat list \<times> bytes) option" where
  "stub_cvtColor COLOR_GRAY2BGR shp xs =
     (if xs = [] then None else Some (shp @ [3], concat (map (\<lambda>x. [x, x, x]) xs)))"
| "stub_cvtColor COLOR_BGRA2BGR shp xs =
     (if xs = [] then None else Some (take 2 shp @ [3], drop_alpha xs))"

definition stub_lib :: lib where
  "stub_lib =
     \<lparr>lib_utf8_encode = stub_utf8_encode,
      lib_utf8_decode = stub_utf8_decode,
      lib_pbkdf2_hmac_sha256 = stub_pbkdf2,
      lib_fernet_key_ok = (\<lambda>key. length key = 44),
      lib_fernet_encrypt_from_parts = (\<lambda>key t iv data. key @ data),
      lib_fernet_decrypt = stub_fernet_decrypt,
      lib_cvtColor = stub_cvtColor\<rparr>"

text \<open>
  Concrete inputs: an 8 x 23 image of three channels (552 samples, all \<open>0x55\<close>) in a
  world with that one buffer, a 10 x 20 image (600 samples, all \<open>0xAA\<close>), the message
  \<open>"h"\<close> and the passwords \<open>"pw"\<close> and \<open>"qw"\<close>; a 1 x 1 image; two 4 x 8 images whose
  samples are all 0 and all 255.
\<close>

definition img_a :: ndarray where
  "img_a = \<lparr>nd_dtype = UInt8, nd_shape = [8, 23, 3], nd_base = 0\<rparr>"

definition world_a :: world where
  "world_a = \<lparr>heap = [replicate 552 0x55], rand = (\<lambda>i. of_nat i), clock = 0\<rparr>"

definition img_b :: ndarray where
  "img_b = \<lparr>nd_dtype = UInt8, nd_shape = [10, 20, 3], nd_base = 0\<rparr>"

definition world_b :: world where
  "world_b = \<lparr>heap = [replicate 600 0xAA], rand = (\<lambda>i. of_nat i), clock = 0\<rparr>"

definition msg_a :: pystr where
  "msg_a = str_lit ''h''"

definition pw_a :: pystr where
  "pw_a = str_lit ''pw''"





definition img_tiny :: ndarray where
  "img_tiny = \<lparr>nd_dtype = UInt8, nd_shape = [1, 1, 3], nd_base = 0\<rparr>"

definition world_tiny :: world where
  "world_tiny = \<lparr>heap = [1, 2, 3] # [], rand = (\<lambda>i. of_nat i), clock = 0\<rparr>"

definition img_32 :: ndarray where
  "img_32 = \<lparr>nd_dtype = UInt8, nd_shape = [4, 8, 3], nd_base = 0\<rparr>"

definition world_zeros :: world where
  "world_zeros = \<lparr>heap = [replicate 96 0], rand = (\<lambda>i. of_nat i), clock = 0\<rparr>"

definition world_ones :: world where
  "world_ones = \<lparr>heap = [replicate 96 255], rand = (\<lambda>i. of_nat i), clock = 0\<rparr>"

section \<open>Lemmas\<close>

subsection \<open>Bits and bytes\<close>

lemma bitval: "drop_bit k x AND 1 = (of_bool (bit x k) :: u8)"
  by (rule bit_word_eqI) (auto simp add: bit_simps)

lemma lt8: "n < 8 \<Longrightarrow> n \<in> {0, 1, 2, 3, 4, 5, 6, 7::nat}"
  by auto

lemma pack_unpack_byte: "pack_byte (unpack_byte x) = x"
proof (rule bit_word_eqI)
  fix n assume "n < LENGTH(8)"
  then have "n < 8" by simp
  from lt8[OF this] show "bit (pack_byte (unpack_byte x)) n = bit x n"
    unfolding pack_byte_def unpack_byte_def
    by (elim insertE emptyE) (simp_all add: bitval bit_simps)
qed

lemma length_unpack_byte: "length (unpack_byte x) = 8"
  by (simp add: unpack_byte_def)

lemma length_unpackbits: "length (unpackbits xs) = 8 * length xs"
  by (induction xs) (simp_all add: unpackbits_def length_unpack_byte)

lemma unpackbits_append: "unpackbits (xs @ ys) = unpackbits xs @ unpackbits ys"
  by (simp add: unpackbits_def)

lemma unpackbits_Cons: "unpackbits (x # xs) = unpack_byte x @ unpackbits xs"
  by (simp add: unpackbits_def)

lemma unpack_byte_01: "b \<in> set (unpack_byte x) \<Longrightarrow> b AND 1 = b"
  by (auto simp: unpack_byte_def and.assoc)

lemma unpackbits_01: "b \<in> set (unpackbits xs) \<Longrightarrow> b AND 1 = b"
  by (auto simp: unpackbits_def unpack_byte_01)

lemma unpack_byte_nth: "k < 8 \<Longrightarrow> unpack_byte x ! k = of_bool (bit x (7 - k))"
proof -
  assume "k < 8"
  from lt8[OF this] show ?thesis
    by (elim insertE emptyE) (simp_all add: unpack_byte_def bitval)
qed

lemma unpackbits_nth:
  "j < length xs \<Longrightarrow> k < 8 \<Longrightarrow> unpackbits xs ! (8 * j + k) = of_bool (bit (xs ! j) (7 - k))"
proof (induction xs arbitrary: j)
  case Nil
  then show ?case by simp
next
  case (Cons x xs)
  show ?case
  proof (cases j)
    case 0
    then show ?thesis
      using Cons.prems by (simp add: unpackbits_Cons nth_append length_unpack_byte unpack_byte_nth)
  next
    case (Suc j')
    then have "unpackbits (x # xs) ! (8 * j + k) = unpackbits xs ! (8 * j' + k)"
      by (simp add: unpackbits_Cons nth_append length_unpack_byte)
    then show ?thesis using Cons Suc by simp
  qed
qed

lemma packbits_Nil: "packbits [] = []"
  by (simp add: packbits.simps)

lemma packbits_chunk: "length a = 8 \<Longrightarrow> packbits (a @ bs) = pack_byte a # packbits bs"
  by (subst packbits.simps) auto

lemma packbits_unpackbits: "packbits (unpackbits xs) = xs"
  by (induction xs)
     (simp_all add: unpackbits_def packbits_Nil packbits_chunk length_unpack_byte pack_unpack_byte)

lemma replicate_8: "replicate 8 x = [x, x, x, x, x, x, x, x]"
  by (simp add: eval_nat_numeral)

lemma replicate_4: "replicate 4 x = [x, x, x, x]"
  by (simp add: eval_nat_numeral)

lemma unpack_byte_0: "unpack_byte 0 = replicate 8 0"
  by (simp add: unpack_byte_def replicate_8)

lemma unpack_byte_255: "unpack_byte 255 = replicate 8 1"
  by (simp add: unpack_byte_def replicate_8)

lemma unpackbits_replicate_0: "unpackbits (replicate n 0) = replicate (8 * n) 0"
  by (induction n) (simp_all add: unpackbits_def unpack_byte_0 replicate_add[symmetric])

lemma unpackbits_replicate_255: "unpackbits (replicate n 255) = replicate (8 * n) 1"
  by (induction n) (simp_all add: unpackbits_def unpack_byte_255 replicate_add[symmetric])

subsection \<open>The length header\<close>

lemma uint_of_nat_u8: "uint (of_nat k :: u8) = int (k mod 256)"
  by (simp add: uint_nat unat_of_nat)

lemma split4:
  assumes "n < 4294967296"
  shows "256 * (256 * (256 * ((n div 16777216) mod 256) + (n div 65536) mod 256) + (n div 256) mod 256) + n mod 256 = (n::nat)"
proof -
  define q1 where "q1 = n div 256"
  define q2 where "q2 = q1 div 256"
  define q3 where "q3 = q2 div 256"
  have e2: "n div 65536 = q2" unfolding q2_def q1_def by (simp add: div_mult2_eq)
  have e3: "n div 16777216 = q3" unfolding q3_def q2_def q1_def by (simp add: div_mult2_eq)
  have "q3 < 256" using assms unfolding e3[symmetric] by (simp add: less_mult_imp_div_less)
  then have m3: "q3 mod 256 = q3" by simp
  have "256 * (256 * (256 * q3 + q2 mod 256) + q1 mod 256) + n mod 256 = n"
    unfolding q3_def q2_def q1_def by (simp only: mult_div_mod_eq)
  then show ?thesis unfolding e2 e3 m3 q1_def[symmetric] .
qed

lemma from_bytes_big4: "from_bytes_big [a, b, c, d] = 256 * (256 * (256 * uint a + uint b) + uint c) + uint d"
  by (simp add: from_bytes_big_def)

lemma to_bytes4_big_Inr: "to_bytes4_big n = Inr bs \<Longrightarrow> n < 4294967296 \<and> length bs = 4"
  by (auto simp add: to_bytes4_big_def split: if_splits)

lemma to_bytes4_big_ok: "n < 4294967296 \<Longrightarrow> \<exists>hdr. to_bytes4_big n = Inr hdr"
  by (simp add: to_bytes4_big_def)

lemma from_bytes_to_bytes: "to_bytes4_big n = Inr bs \<Longrightarrow> from_bytes_big bs = int n"
proof -
  assume a: "to_bytes4_big n = Inr bs"
  then have lt: "n < 4294967296" by (simp add: to_bytes4_big_def split: if_splits)
  from a lt have bs: "bs = [of_nat (n div 16777216), of_nat (n div 65536), of_nat (n div 256), of_nat n]"
    by (simp add: to_bytes4_big_def)
  have "from_bytes_big bs = int (256 * (256 * (256 * ((n div 16777216) mod 256) + (n div 65536) mod 256) + (n div 256) mod 256) + n mod 256)"
    unfolding bs from_bytes_big4 uint_of_nat_u8 by simp
  also have "\<dots> = int n" by (rule arg_cong[where f=int]) (rule split4[OF lt])
  finally show ?thesis .
qed

subsection \<open>Base64\<close>

lemma length_urlsafe_b64encode: "length (urlsafe_b64encode xs) = 4 * ((length xs + 2) div 3)"
proof (induction xs rule: urlsafe_b64encode.induct)
  case (4 a b c rest)
  have "(length (a # b # c # rest) + 2) div 3 = Suc ((length rest + 2) div 3)" by simp
  with 4 show ?case by simp
qed simp_all


subsection \<open>Embedding\<close>

lemma lsb_embed: "b AND 1 = b \<Longrightarrow> ((x AND 0xFE) OR b) AND 1 = (b::u8)"
  by (simp add: bit.conj_disj_distrib2 and.assoc)

lemma hi_embed: "b AND 1 = b \<Longrightarrow> ((x AND 0xFE) OR b) AND 0xFE = x AND (0xFE::u8)"
proof -
  assume "b AND 1 = b"
  then have "b AND 0xFE = (b AND 1) AND 0xFE" by simp
  also have "\<dots> = 0" by (simp only: and.assoc) simp
  finally show ?thesis by (simp add: bit.conj_disj_distrib2 and.assoc)
qed

lemma bit0_embed: "bit (((x::u8) AND 0xFE) OR of_bool P) 0 = P"
  by (simp add: bit_simps)

lemma length_embed_bits: "length (embed_bits bits samples) = length samples"
  by (simp add: embed_bits_def)

lemma embed_bits_nth_lt:
  "i < length bits \<Longrightarrow> length bits \<le> length samples \<Longrightarrow>
   embed_bits bits samples ! i = (samples ! i AND 0xFE) OR bits ! i"
  by (simp add: embed_bits_def nth_append)

lemma embed_bits_nth_ge:
  "length bits \<le> i \<Longrightarrow> length bits \<le> length samples \<Longrightarrow> i < length samples \<Longrightarrow>
   embed_bits bits samples ! i = samples ! i"
  by (simp add: embed_bits_def nth_append)

lemma embed_bits_drop:
  "length bits \<le> length samples \<Longrightarrow>
   drop (length bits) (embed_bits bits samples) = drop (length bits) samples"
  by (simp add: embed_bits_def)

lemma embed_bits_lsb:
  assumes "length bits \<le> length samples" and "\<And>b. b \<in> set bits \<Longrightarrow> b AND 1 = b"
  shows "map (\<lambda>x. x AND 1) (take (length bits) (embed_bits bits samples)) = bits"
proof (rule nth_equalityI)
  show "length (map (\<lambda>x. x AND 1) (take (length bits) (embed_bits bits samples))) = length bits"
    using assms(1) by (simp add: length_embed_bits)
next
  fix i assume "i < length (map (\<lambda>x. x AND 1) (take (length bits) (embed_bits bits samples)))"
  then have i: "i < length bits" by simp
  then have "bits ! i AND 1 = bits ! i" using assms(2) by simp
  then show "map (\<lambda>x. x AND 1) (take (length bits) (embed_bits bits samples)) ! i = bits ! i"
    using i assms(1) by (simp add: length_embed_bits embed_bits_nth_lt lsb_embed)
qed


lemma lsb_bytes_embed:
  assumes "length (unpackbits xs) \<le> length samples"
  shows "lsb_bytes (8 * length xs) (embed_bits (unpackbits xs) samples) = xs"
proof -
  have "map (\<lambda>x. x AND 1) (take (length (unpackbits xs)) (embed_bits (unpackbits xs) samples))
          = unpackbits xs"
    by (rule embed_bits_lsb[OF assms]) (rule unpackbits_01)
  then show ?thesis
    by (simp add: lsb_bytes_def length_unpackbits packbits_unpackbits)
qed

lemma lsb_bytes_embed_prefix:
  assumes "length (unpackbits (xs @ ys)) \<le> length samples"
  shows "lsb_bytes (8 * length xs) (embed_bits (unpackbits (xs @ ys)) samples) = xs"
proof -
  let ?bits = "unpackbits (xs @ ys)"
  have l: "map (\<lambda>x. x AND 1) (take (length ?bits) (embed_bits ?bits samples)) = ?bits"
    by (rule embed_bits_lsb[OF assms]) (rule unpackbits_01)
  have "map (\<lambda>x. x AND 1) (take (8 * length xs) (embed_bits ?bits samples))
          = take (8 * length xs) (map (\<lambda>x. x AND 1) (take (length ?bits) (embed_bits ?bits samples)))"
    by (simp add: take_map length_unpackbits min_def)
  also have "\<dots> = unpackbits xs"
    by (simp only: l) (simp add: unpackbits_append length_unpackbits)
  finally show ?thesis
    by (simp add: lsb_bytes_def packbits_unpackbits)
qed

subsection \<open>The world\<close>

lemma os_urandom_simps:
  "length (fst (os_urandom n w)) = n"
  "heap (snd (os_urandom n w)) = heap w"
  "clock (snd (os_urandom n w)) = clock w"
  by (simp_all add: os_urandom_def)

lemma fernet_encrypt_heap: "heap (snd (fernet_encrypt L key data w)) = heap w"
  by (simp add: fernet_encrypt_def os_urandom_def)

lemma fernet_encrypt_fst:
  "fst (fernet_encrypt L key data w) =
     lib_fernet_encrypt_from_parts L key (clock w) (fst (os_urandom 16 w)) data"
  by (simp add: fernet_encrypt_def split: prod.splits)

lemma derive_key_world: "snd (derive_key L p salt w) = w"
  by (simp add: derive_key_def split: option.splits)

lemma derive_key_fst:
  "fst (derive_key L p salt w) =
     (case lib_utf8_encode L p of
        None \<Rightarrow> Inl UnicodeEncodeError
      | Some pw \<Rightarrow> Inr (urlsafe_b64encode (lib_pbkdf2_hmac_sha256 L 32 salt 100000 pw)))"
  by (simp add: derive_key_def split: option.splits)

lemma derive_key_indep: "fst (derive_key L p salt w) = fst (derive_key L p salt w')"
  by (simp add: derive_key_fst)

lemma derive_key_pair: "derive_key L p salt w = (fst (derive_key L p salt w'), w)"
  by (simp add: prod_eq_iff derive_key_world derive_key_indep[of L p salt w w'])

text \<open>The two callers of \<open>derive_key\<close>, with its world passed through.\<close>

lemma encrypt_message_unfold:
  "encrypt_message L m p w =
     (case fst (derive_key L p (fst (os_urandom 16 w)) w') of
        Inl e \<Rightarrow> (Inl e, snd (os_urandom 16 w))
      | Inr key \<Rightarrow>
          if \<not> lib_fernet_key_ok L key then (Inl FernetKeyError, snd (os_urandom 16 w))
          else (case lib_utf8_encode L m of
                  None \<Rightarrow> (Inl UnicodeEncodeError, snd (os_urandom 16 w))
                | Some data \<Rightarrow>
                    (Inr (fst (os_urandom 16 w) @ fst (fernet_encrypt L key data (snd (os_urandom 16 w)))),
                     snd (fernet_encrypt L key data (snd (os_urandom 16 w))))))"
  unfolding encrypt_message_def
  by (subst derive_key_pair[where w' = w'])
     (simp add: split_beta Let_def split: sum.splits option.splits)

lemma decrypt_message_unfold:
  "decrypt_message L data p w =
     (if length data < 16 then err_password
      else (case fst (derive_key L p (take 16 data) w') of
              Inl e \<Rightarrow> err_password
            | Inr key \<Rightarrow>
                if \<not> lib_fernet_key_ok L key then err_password
                else (case lib_fernet_decrypt L key (drop 16 data) of
                        None \<Rightarrow> err_password
                      | Some plain \<Rightarrow>
                          (case lib_utf8_decode L plain of None \<Rightarrow> err_password | Some s \<Rightarrow> s))))"
  unfolding decrypt_message_def
  by (subst derive_key_pair[where w' = w'])
     (simp add: Let_def split: sum.splits option.splits)

lemma decrypt_message_indep: "decrypt_message L data p w = decrypt_message L data p w'"
  by (simp add: decrypt_message_unfold[where w' = w'])

lemma encrypt_message_heap: "heap (snd (encrypt_message L m p w)) = heap w"
  by (simp add: encrypt_message_unfold[where w' = w] os_urandom_def fernet_encrypt_def
           split: sum.splits option.splits)

lemma full_payload_heap: "heap (snd (full_payload L m p w)) = heap w"
  using encrypt_message_heap[of L m p w]
  by (auto simp add: full_payload_def Let_def split: prod.splits sum.splits)

subsection \<open>Key derivation and framing\<close>

lemma derive_key_Inr:
  "lib_utf8_encode L p = Some pw \<Longrightarrow>
   fst (derive_key L p salt w)
     = Inr (urlsafe_b64encode (lib_pbkdf2_hmac_sha256 L 32 salt 100000 pw))"
  by (simp add: derive_key_fst)


text \<open>
  Whatever PBKDF2 is, it maps the passwords to the finitely many lists of 32 bytes: two
  passwords derive the same key.
\<close>

lemma derive_key_collision:
  assumes len: "pbkdf2_length_ok L" and ascii: "\<And>n. lib_utf8_encode L (replicate n 97) \<noteq> None"
  shows "\<exists>p1 p2 key. p1 \<noteq> p2 \<and> fst (derive_key L p1 salt w) = Inr key \<and>
           fst (derive_key L p2 salt w) = Inr key"
proof -
  define f where "f n = lib_pbkdf2_hmac_sha256 L 32 salt 100000 (the (lib_utf8_encode L (replicate n 97)))"
    for n :: nat
  have "range f \<subseteq> {xs. set xs \<subseteq> UNIV \<and> length xs = 32}"
    using len by (auto simp add: f_def pbkdf2_length_ok_def)
  then have "finite (range f)"
    using finite_lists_length_eq[of "UNIV :: u8 set" 32] by (simp add: finite_subset)
  then have "\<not> inj f" using finite_imageD by auto
  then obtain n n' where ne: "n \<noteq> n'" and eq: "f n = f n'" by (auto simp add: inj_on_def)
  have k: "fst (derive_key L (replicate j 97) salt w) = Inr (urlsafe_b64encode (f j))" for j
    using ascii[of j] by (auto simp add: derive_key_fst f_def)
  have "replicate n (97::nat) \<noteq> replicate n' 97"
    using ne by (metis length_replicate)
  with k[of n] k[of n'] eq show ?thesis by metis
qed


text \<open>What a framed payload is made of.\<close>

lemma encrypt_message_Inr:
  assumes "fst (encrypt_message L m p w) = Inr ep"
  shows "\<exists>key data token.
           fst (derive_key L p (fst (os_urandom 16 w)) w') = Inr key \<and> lib_fernet_key_ok L key \<and>
           lib_utf8_encode L m = Some data \<and>
           token = fst (fernet_encrypt L key data (snd (os_urandom 16 w))) \<and>
           ep = fst (os_urandom 16 w) @ token"
  using assms
  by (auto simp add: encrypt_message_unfold[where w' = w']
           split: sum.splits option.splits if_splits)

lemma full_payload_Inr:
  assumes "fst (full_payload L m p w) = Inr full"
  shows "\<exists>ep hdr. fst (encrypt_message L m p w) = Inr ep \<and>
           to_bytes4_big (length (MAGIC_HEADER @ ep)) = Inr hdr \<and>
           full = hdr @ MAGIC_HEADER @ ep"
  using assms
  by (auto simp add: full_payload_def Let_def split: prod.splits sum.splits)

lemma length_MAGIC: "length MAGIC_HEADER = 4"
  by (simp add: MAGIC_HEADER_def bytes_lit_def)


lemma length_full_payload:
  assumes "fst (full_payload L m p w) = Inr full"
  shows "24 \<le> length full"
proof -
  from full_payload_Inr[OF assms] obtain ep hdr where
    ep: "fst (encrypt_message L m p w) = Inr ep" and
    hdr: "to_bytes4_big (length (MAGIC_HEADER @ ep)) = Inr hdr" and
    full: "full = hdr @ MAGIC_HEADER @ ep" by blast
  from encrypt_message_Inr[OF ep] obtain token where "ep = fst (os_urandom 16 w) @ token" by blast
  then have "16 \<le> length ep" by (simp add: os_urandom_simps)
  with to_bytes4_big_Inr[OF hdr] full show ?thesis by (simp add: length_MAGIC)
qed

lemma full_payload_ok:
  assumes k: "fst (derive_key L p (fst (os_urandom 16 w)) w') = Inr key"
      and ok: "lib_fernet_key_ok L key"
      and d: "lib_utf8_encode L m = Some data"
      and t: "token = fst (fernet_encrypt L key data (snd (os_urandom 16 w)))"
      and lt: "20 + length token < 4294967296"
  shows "\<exists>hdr. to_bytes4_big (20 + length token) = Inr hdr \<and>
           fst (full_payload L m p w) = Inr (hdr @ MAGIC_HEADER @ fst (os_urandom 16 w) @ token)"
proof -
  have ep: "fst (encrypt_message L m p w) = Inr (fst (os_urandom 16 w) @ token)"
    using k ok d t by (simp add: encrypt_message_unfold[where w' = w'])
  from to_bytes4_big_ok[OF lt] obtain hdr where h: "to_bytes4_big (20 + length token) = Inr hdr" ..
  have h': "to_bytes4_big (length (MAGIC_HEADER @ fst (os_urandom 16 w) @ token)) = Inr hdr"
    using h by (simp add: length_MAGIC os_urandom_simps)
  from ep show ?thesis
    by (cases "encrypt_message L m p w") (simp add: full_payload_def Let_def h h' del: length_append)
qed

subsection \<open>Normalization\<close>

lemma ensure_normalized: "normalized img \<Longrightarrow> ensure_rgb_uint8 L img w = (Inr img, w)"
  by (simp add: ensure_rgb_uint8_def normalized_def)

lemma cvtColor_world:
  assumes "cvtColor L c img w = (r, w1)"
  shows "rand w1 = rand w \<and> clock w1 = clock w \<and> take (length (heap w)) (heap w1) = heap w"
  using assms by (auto simp add: cvtColor_def alloc_def split: option.splits)

lemma ensure_world:
  assumes "ensure_rgb_uint8 L img0 w = (r, w1)"
  shows "rand w1 = rand w \<and> clock w1 = clock w \<and> take (length (heap w)) (heap w1) = heap w"
proof (cases "nd_dtype img0 = UInt8")
  case False
  with assms show ?thesis by (simp add: ensure_rgb_uint8_def)
next
  case True
  obtain r' w' where c: "(if ndim img0 = 2 then cvtColor L COLOR_GRAY2BGR img0 w
           else if ndim img0 = 3 \<and> nd_shape img0 ! 2 = 4 then cvtColor L COLOR_BGRA2BGR img0 w
           else (Inr img0, w)) = (r', w')"
    by (metis surj_pair)
  then have "rand w' = rand w \<and> clock w' = clock w \<and> take (length (heap w)) (heap w') = heap w"
    by (auto split: if_splits dest: cvtColor_world)
  moreover have "w1 = w'"
    using assms True c by (auto simp add: ensure_rgb_uint8_def split: sum.splits if_splits)
  ultimately show ?thesis by simp
qed

lemma ensure_Inr_normalized:
  assumes "ensure_rgb_uint8 L img0 w = (Inr img, w1)"
  shows "normalized img"
proof -
  have dt: "nd_dtype img0 = UInt8"
    using assms by (auto simp add: ensure_rgb_uint8_def split: if_splits)
  obtain r' w' where c: "(if ndim img0 = 2 then cvtColor L COLOR_GRAY2BGR img0 w
           else if ndim img0 = 3 \<and> nd_shape img0 ! 2 = 4 then cvtColor L COLOR_BGRA2BGR img0 w
           else (Inr img0, w)) = (r', w')"
    by (metis surj_pair)
  with assms dt have r: "r' = Inr img" and sh: "ndim img = 3 \<and> nd_shape img ! 2 = 3"
    by (auto simp add: ensure_rgb_uint8_def split: sum.splits if_splits)
  have "nd_dtype img = UInt8"
    using c r dt by (auto simp add: cvtColor_def alloc_def split: if_splits option.splits)
  with sh show ?thesis by (simp add: normalized_def)
qed

subsection \<open>What \<open>encode\<close> returns and does to the world\<close>

lemma flatten_eq:
  "flatten img w = (\<lparr>nd_dtype = nd_dtype img, nd_shape = [nd_size img], nd_base = length (heap w)\<rparr>,
                    w\<lparr>heap := heap w @ [buffer w img]\<rparr>)"
  by (simp add: flatten_def alloc_def)

lemma write_lsb_view_fresh:
  "nd_base fl = length hp \<Longrightarrow> heap w = hp @ [buf] \<Longrightarrow>
   write_lsb_view fl bits w = w\<lparr>heap := hp @ [embed_bits bits buf]\<rparr>"
  by (simp add: write_lsb_view_def buffer_def)

lemma encode_success:
  assumes e: "ensure_rgb_uint8 L img0 w = (Inr img, w1)"
      and fp: "full_payload L m p w1 = (Inr full, w2)"
      and cap: "8 * length full \<le> nd_size img"
  shows "encode L img0 m p w =
           (Inr \<lparr>nd_dtype = nd_dtype img, nd_shape = nd_shape img, nd_base = length (heap w1)\<rparr>,
            w2\<lparr>heap := heap w1 @ [embed_bits (unpackbits full) (buffer w1 img)]\<rparr>)"
proof -
  have h2: "heap w2 = heap w1" using full_payload_heap[of L m p w1] fp by simp
  have "24 \<le> length full" using length_full_payload[of L m p w1 full] fp by simp
  with cap have big: "\<not> nd_size img < 64" by simp
  have b: "buffer w2 img = buffer w1 img" by (simp add: buffer_def h2)
  have wr: "write_lsb_view \<lparr>nd_dtype = nd_dtype img, nd_shape = [nd_size img], nd_base = length (heap w1)\<rparr>
              (unpackbits full) (w2\<lparr>heap := heap w1 @ [buffer w1 img]\<rparr>)
            = w2\<lparr>heap := heap w1 @ [embed_bits (unpackbits full) (buffer w1 img)]\<rparr>"
    by (subst write_lsb_view_fresh[where hp = "heap w1" and buf = "buffer w1 img"]) simp_all
  show ?thesis
    unfolding encode_def
    using e fp cap big
    by (simp add: Let_def flatten_eq length_unpackbits h2 b wr)
qed


lemma encode_Inr:
  assumes "encode L img0 m p w = (Inr enc, w')"
  obtains img w1 full w2 where
    "ensure_rgb_uint8 L img0 w = (Inr img, w1)" "full_payload L m p w1 = (Inr full, w2)"
    "8 * length full \<le> nd_size img"
  using assms
  by (auto simp add: encode_def Let_def length_unpackbits
           split: prod.splits sum.splits if_splits)

text \<open>All that a successful \<open>encode\<close> is, in one place.\<close>

lemma encode_Inr_result:
  assumes e: "ensure_rgb_uint8 L img0 w = (Inr img, w1)"
      and enc: "encode L img0 m p w = (Inr enc, w')"
  shows "\<exists>full. fst (full_payload L m p w1) = Inr full \<and> 8 * length full \<le> nd_size img \<and>
           nd_base enc = length (heap w1) \<and> nd_shape enc = nd_shape img \<and>
           nd_dtype enc = nd_dtype img \<and>
           heap w' = heap w1 @ [embed_bits (unpackbits full) (buffer w1 img)] \<and>
           buffer w' enc = embed_bits (unpackbits full) (buffer w1 img)"
proof -
  from encode_Inr[OF enc] e obtain full w2 where
    fp: "full_payload L m p w1 = (Inr full, w2)" and cap: "8 * length full \<le> nd_size img"
    by (metis Pair_inject sum.inject(2))
  have res: "enc = \<lparr>nd_dtype = nd_dtype img, nd_shape = nd_shape img, nd_base = length (heap w1)\<rparr>"
            "w' = w2\<lparr>heap := heap w1 @ [embed_bits (unpackbits full) (buffer w1 img)]\<rparr>"
    using encode_success[OF e fp cap] enc by simp_all
  show ?thesis
    using fp cap by (intro exI[of _ full]) (simp add: res buffer_def)
qed

lemma take_prefix_length: "take n xs = ys \<Longrightarrow> length ys = n \<Longrightarrow> n \<le> length xs"
  by (metis length_take min.cobounded1 min.commute)

lemma encode_world:
  assumes e: "ensure_rgb_uint8 L img0 w = (r0, w1)" and enc: "encode L img0 m p w = (r, w')"
  shows "(\<exists>x. heap w' = heap w1 @ [x] \<and> (\<exists>enc. r = Inr enc \<and> nd_base enc = length (heap w1)))
         \<or> (heap w' = heap w1 \<and> isl r)"
proof (cases r0)
  case (Inl ex)
  with e enc show ?thesis by (auto simp add: encode_def)
next
  case (Inr img)
  note e' = e[unfolded Inr]
  show ?thesis
  proof (cases r)
    case (Inl ex)
    have "heap (snd (full_payload L m p w1)) = heap w1" by (rule full_payload_heap)
    then have "heap w' = heap w1"
      using enc e' Inl
      by (auto simp add: encode_def Let_def flatten_eq split: prod.splits sum.splits if_splits)
    with Inl show ?thesis by simp
  next
    case (Inr res)
    from encode_Inr_result[OF e' enc[unfolded Inr]] Inr show ?thesis by auto
  qed
qed

subsection \<open>Decoding and decrypting\<close>

lemma decode_image_cases:
  assumes "ensure_rgb_uint8 L img0 w = (Inr img, w1)"
  defines "flat \<equiv> buffer w1 img"
  defines "H \<equiv> header_length (buffer w1 img)"
  defines "cap \<equiv> (int (length (buffer w1 img)) - 32) div 8"
  shows "H \<le> 0 \<Longrightarrow> decode_image L img0 p w = Inr err_no_data"
    and "0 < H \<Longrightarrow> cap < H \<Longrightarrow> decode_image L img0 p w = Inr err_incomplete"
    and "0 < H \<Longrightarrow> H \<le> cap \<Longrightarrow> take 4 (payload_bytes_of flat) \<noteq> MAGIC_HEADER \<Longrightarrow>
           decode_image L img0 p w = Inr err_no_data"
    and "0 < H \<Longrightarrow> H \<le> cap \<Longrightarrow> take 4 (payload_bytes_of flat) = MAGIC_HEADER \<Longrightarrow>
           decode_image L img0 p w = Inr (decrypt_message L (drop 4 (payload_bytes_of flat)) p w1)"
proof -
  have hl: "from_bytes_big (packbits (map (\<lambda>x. x AND 1) (take 32 (buffer w1 img)))) = H"
    by (simp add: H_def header_length_def lsb_bytes_def)
  have pb: "packbits (map (\<lambda>x. x AND 1) (drop 32 (take (nat (32 + H * 8)) (buffer w1 img))))
              = payload_bytes_of flat"
    by (simp add: payload_bytes_of_def H_def flat_def)
  have e: "H \<le> cap \<Longrightarrow> \<not> int (length (buffer w1 img)) < 32 + H * 8"
    unfolding cap_def by linarith
  have m: "take 4 xs = MAGIC_HEADER \<Longrightarrow> \<not> length xs < 4" for xs :: bytes
    using length_MAGIC by (metis length_take min_less_iff_conj nat_neq_iff)
  show "H \<le> 0 \<Longrightarrow> decode_image L img0 p w = Inr err_no_data"
    using assms(1) by (simp add: decode_image_def Let_def hl)
  show "0 < H \<Longrightarrow> cap < H \<Longrightarrow> decode_image L img0 p w = Inr err_incomplete"
    using assms(1) by (simp add: decode_image_def Let_def hl cap_def)
  show "0 < H \<Longrightarrow> H \<le> cap \<Longrightarrow> take 4 (payload_bytes_of flat) \<noteq> MAGIC_HEADER \<Longrightarrow>
           decode_image L img0 p w = Inr err_no_data"
    using assms(1) e by (simp add: decode_image_def Let_def hl pb cap_def[symmetric])
  show "0 < H \<Longrightarrow> H \<le> cap \<Longrightarrow> take 4 (payload_bytes_of flat) = MAGIC_HEADER \<Longrightarrow>
           decode_image L img0 p w = Inr (decrypt_message L (drop 4 (payload_bytes_of flat)) p w1)"
    using assms(1) e m[of "payload_bytes_of flat"]
    by (simp add: decode_image_def Let_def hl pb cap_def[symmetric])
qed

lemma decode_image_framed:
  assumes norm: "normalized enc"
      and buf: "buffer w enc = embed_bits (unpackbits (hdr @ MAGIC_HEADER @ ep)) samples"
      and hdr: "to_bytes4_big (length (MAGIC_HEADER @ ep)) = Inr hdr"
      and cap: "8 * length (hdr @ MAGIC_HEADER @ ep) \<le> length samples"
  shows "decode_image L enc p w = Inr (decrypt_message L ep p w)"
proof -
  define content where "content = MAGIC_HEADER @ ep"
  define bits where "bits = unpackbits (hdr @ content)"
  define fl where "fl = buffer w enc"
  define f where "f = (\<lambda>x::u8. x AND 1)"
  have lh: "length hdr = 4" using to_bytes4_big_Inr[OF hdr] by simp
  have n: "length bits = 32 + 8 * length content"
    by (simp add: bits_def length_unpackbits lh)
  have fl: "fl = embed_bits bits samples"
    by (simp add: fl_def buf bits_def content_def)
  have len_fl: "length fl = length samples" by (simp add: fl length_embed_bits)
  have cap': "length bits \<le> length samples"
    using cap by (simp add: bits_def length_unpackbits content_def)
  have lsb: "map f (take (length bits) fl) = bits"
    unfolding f_def fl
    by (rule embed_bits_lsb[OF cap']) (simp add: bits_def unpackbits_01)
  have bits_split: "bits = unpackbits hdr @ unpackbits content"
    by (simp add: bits_def unpackbits_append)
  have "map f (take 32 fl) = take 32 (map f (take (length bits) fl))"
    by (simp add: n take_map min_def)
  also have "\<dots> = unpackbits hdr"
    by (simp only: lsb) (simp add: bits_split length_unpackbits lh)
  finally have hb: "map f (take 32 fl) = unpackbits hdr" .
  have pl: "from_bytes_big (packbits (map f (take 32 fl))) = int (length content)"
    by (simp add: hb packbits_unpackbits from_bytes_to_bytes[OF hdr, unfolded content_def[symmetric]])
  have pos: "0 < length content" by (simp add: content_def length_MAGIC)
  have fits: "\<not> int (length content) > (int (length fl) - 32) div 8"
    using cap' by (simp add: n len_fl)
  have e1: "\<not> 32 + int (length content) * 8 > int (length fl)"
    using cap' by (simp add: n len_fl)
  have endi: "nat (32 + int (length content) * 8) = length bits"
    by (simp add: n nat_add_distrib nat_mult_distrib)
  have "map f (drop 32 (take (length bits) fl)) = drop 32 (map f (take (length bits) fl))"
    by (simp add: drop_map)
  also have "\<dots> = unpackbits content"
    by (simp only: lsb) (simp add: bits_split length_unpackbits lh)
  finally have pb: "packbits (map f (drop 32 (take (length bits) fl))) = content"
    by (simp add: packbits_unpackbits)
  have c4: "take 4 content = MAGIC_HEADER" "drop 4 content = ep" "\<not> length content < 4"
    by (simp_all add: content_def length_MAGIC)
  have ens: "ensure_rgb_uint8 L enc w = (Inr enc, w)" by (rule ensure_normalized[OF norm])
  show ?thesis
    unfolding decode_image_def ens
    using pos fits e1
    by (simp add: Let_def fl_def[symmetric] f_def[symmetric] pl endi pb c4)
qed


lemma decrypt_message_salted:
  assumes "length salt = 16"
  shows "decrypt_message L (salt @ token) p w =
           (case fst (derive_key L p salt w') of
              Inl e \<Rightarrow> err_password
            | Inr key \<Rightarrow>
                if \<not> lib_fernet_key_ok L key then err_password
                else (case lib_fernet_decrypt L key token of
                        None \<Rightarrow> err_password
                      | Some plain \<Rightarrow>
                          (case lib_utf8_decode L plain of None \<Rightarrow> err_password | Some s \<Rightarrow> s)))"
  using assms by (simp add: decrypt_message_unfold[where w' = w'] split: sum.splits)

lemma decrypt_message_cases:
  "decrypt_message L data p w = err_password \<or>
   (\<exists>key plain. 16 \<le> length data \<and> fst (derive_key L p (take 16 data) w) = Inr key \<and>
      lib_fernet_key_ok L key \<and> lib_fernet_decrypt L key (drop 16 data) = Some plain \<and>
      lib_utf8_decode L plain = Some (decrypt_message L data p w))"
  by (auto simp add: decrypt_message_unfold[where w' = w] split: sum.splits option.splits)


lemma decrypt_encrypted:
  assumes fr: "fernet_roundtrip L" and ur: "utf8_roundtrip L"
      and ep: "fst (encrypt_message L m p w) = Inr ep"
  shows "decrypt_message L ep p w' = m"
proof -
  from encrypt_message_Inr[OF ep, where w' = w'] obtain key data token where
    k: "fst (derive_key L p (fst (os_urandom 16 w)) w') = Inr key" and
    ok: "lib_fernet_key_ok L key" and
    d: "lib_utf8_encode L m = Some data" and
    t: "token = fst (fernet_encrypt L key data (snd (os_urandom 16 w)))" and
    e: "ep = fst (os_urandom 16 w) @ token" by blast
  have "lib_fernet_decrypt L key token = Some data"
    using fr ok unfolding t fernet_encrypt_fst fernet_roundtrip_def by blast
  moreover have "lib_utf8_decode L data = Some m"
    using ur d unfolding utf8_roundtrip_def by blast
  ultimately show ?thesis
    unfolding e
    by (subst decrypt_message_salted[where w' = w']) (simp_all add: os_urandom_simps k ok)
qed

lemma decode_encoded:
  assumes e: "ensure_rgb_uint8 L img0 w = (Inr img, w1)" and wf: "wf_ndarray w1 img"
      and enc: "encode L img0 m p w = (Inr enc, w')"
  shows "\<exists>ep. fst (encrypt_message L m p w1) = Inr ep \<and>
              (\<forall>p'. decode_image L enc p' w' = Inr (decrypt_message L ep p' w'))"
proof -
  from encode_Inr[OF enc] e obtain full w2 where
    fp: "full_payload L m p w1 = (Inr full, w2)" and cap: "8 * length full \<le> nd_size img"
    by (metis Pair_inject sum.inject(2))
  from full_payload_Inr[of L m p w1 full] fp obtain ep hdr where
    ep: "fst (encrypt_message L m p w1) = Inr ep" and
    hdr: "to_bytes4_big (length (MAGIC_HEADER @ ep)) = Inr hdr" and
    full: "full = hdr @ MAGIC_HEADER @ ep" by auto
  have res: "enc = \<lparr>nd_dtype = nd_dtype img, nd_shape = nd_shape img, nd_base = length (heap w1)\<rparr>"
            "w' = w2\<lparr>heap := heap w1 @ [embed_bits (unpackbits full) (buffer w1 img)]\<rparr>"
    using encode_success[OF e fp cap] enc by simp_all
  have norm: "normalized enc"
    using ensure_Inr_normalized[OF e] by (simp add: res normalized_def ndim_def)
  have buf: "buffer w' enc = embed_bits (unpackbits (hdr @ MAGIC_HEADER @ ep)) (buffer w1 img)"
    by (simp add: res buffer_def full)
  have cap': "8 * length (hdr @ MAGIC_HEADER @ ep) \<le> length (buffer w1 img)"
    using cap wf by (simp add: full wf_ndarray_def)
  show ?thesis
    using ep decode_image_framed[OF norm buf hdr cap'] by blast
qed


lemma err_strings_distinct:
  "err_no_data \<noteq> err_incomplete" "err_no_data \<noteq> err_password" "err_incomplete \<noteq> err_password"
  by (simp_all add: err_no_data_def err_incomplete_def err_password_def str_lit_def)


subsection \<open>The small instance and the concrete inputs\<close>

lemma stub_fernet_roundtrip: "fernet_roundtrip stub_lib"
  by (simp add: fernet_roundtrip_def stub_lib_def stub_fernet_decrypt_def)

lemma stub_utf8_roundtrip: "utf8_roundtrip stub_lib"
proof -
  have "list_all (\<lambda>c. c < 128) s \<Longrightarrow>
        list_all (\<lambda>x. unat x < 128) (map of_nat s :: bytes) \<and> map unat (map of_nat s :: bytes) = s" for s
    by (induction s) (simp_all add: unat_of_nat)
  then show ?thesis
    by (auto simp add: utf8_roundtrip_def stub_lib_def stub_utf8_encode_def stub_utf8_decode_def
             split: if_splits)
qed

lemma length_stub_pbkdf2: "length (stub_pbkdf2 n salt c pw) = n"
  by (auto simp add: stub_pbkdf2_def min_def)


lemma stub_pbkdf2_length: "pbkdf2_length_ok stub_lib"
  by (simp add: pbkdf2_length_ok_def stub_lib_def length_stub_pbkdf2)

lemma derive_key_stub:
  "stub_utf8_encode p = Some pb \<Longrightarrow>
   fst (derive_key stub_lib p salt w) = Inr (urlsafe_b64encode (stub_pbkdf2 32 salt 100000 pb))"
  by (simp add: derive_key_fst stub_lib_def)

lemma stub_encode_pw_a: "stub_utf8_encode pw_a = Some [112, 119]"
  by (simp add: stub_utf8_encode_def pw_a_def str_lit_def)

lemmas derive_key_stub_a = derive_key_stub[OF stub_encode_pw_a]









lemma payload_stub:
  assumes "stub_utf8_encode p = Some pb"
  shows "\<exists>full. fst (full_payload stub_lib msg_a p w) = Inr full \<and> length full = 69"
proof -
  define key where "key = urlsafe_b64encode (stub_pbkdf2 32 (fst (os_urandom 16 w)) 100000 pb)"
  define token where "token = fst (fernet_encrypt stub_lib key [104] (snd (os_urandom 16 w)))"
  have lk: "length key = 44"
    by (simp add: key_def length_urlsafe_b64encode length_stub_pbkdf2)
  have lt: "length token = 45"
    by (simp add: token_def fernet_encrypt_fst stub_lib_def lk)
  have k: "fst (derive_key stub_lib p (fst (os_urandom 16 w)) w) = Inr key"
    by (simp add: derive_key_stub[OF assms] key_def)
  have ok: "lib_fernet_key_ok stub_lib key" by (simp add: stub_lib_def lk)
  have d: "lib_utf8_encode stub_lib msg_a = Some [104]"
    by (simp add: stub_lib_def stub_utf8_encode_def msg_a_def str_lit_def)
  from full_payload_ok[OF k ok d token_def] lt obtain hdr where
    h: "to_bytes4_big (20 + length token) = Inr hdr" and
    f: "fst (full_payload stub_lib msg_a p w) = Inr (hdr @ MAGIC_HEADER @ fst (os_urandom 16 w) @ token)"
    by auto
  show ?thesis
    using f to_bytes4_big_Inr[OF h] lt by (simp add: length_MAGIC os_urandom_simps)
qed

lemmas payload_a = payload_stub[OF stub_encode_pw_a, of world_a]

lemma img_a_normalized: "normalized img_a"
  by (simp add: normalized_def img_a_def ndim_def)

lemma img_a_wf: "wf_ndarray world_a img_a"
  by (simp add: wf_ndarray_def img_a_def world_a_def buffer_def nd_size_def)

lemma img_a_size: "nd_size img_a = 552"
  by (simp add: img_a_def nd_size_def)

lemma encode_a: "\<exists>enc w'. encode stub_lib img_a msg_a pw_a world_a = (Inr enc, w')"
proof -
  from payload_a obtain full where
    f: "fst (full_payload stub_lib msg_a pw_a world_a) = Inr full" and l: "length full = 69"
    by blast
  obtain w2 where fp: "full_payload stub_lib msg_a pw_a world_a = (Inr full, w2)"
    using f by (cases "full_payload stub_lib msg_a pw_a world_a") simp
  have cap: "8 * length full \<le> nd_size img_a" by (simp add: l img_a_size)
  show ?thesis
    using encode_success[OF ensure_normalized[OF img_a_normalized] fp cap] by blast
qed

lemma img_b_normalized: "normalized img_b"
  by (simp add: normalized_def img_b_def ndim_def)

lemma img_b_wf: "wf_ndarray world_b img_b"
  by (simp add: wf_ndarray_def img_b_def world_b_def buffer_def nd_size_def)

lemma img_b_size: "nd_size img_b = 600"
  by (simp add: img_b_def nd_size_def)





lemma encode_b: "\<exists>enc w'. encode stub_lib img_b msg_a pw_a world_b = (Inr enc, w')"
proof -
  from payload_stub[OF stub_encode_pw_a, of world_b] obtain full where
    f: "fst (full_payload stub_lib msg_a pw_a world_b) = Inr full" and l: "length full = 69"
    by blast
  obtain w2 where fp: "full_payload stub_lib msg_a pw_a world_b = (Inr full, w2)"
    using f by (cases "full_payload stub_lib msg_a pw_a world_b") simp
  have cap: "8 * length full \<le> nd_size img_b" by (simp add: l img_b_size)
  show ?thesis
    using encode_success[OF ensure_normalized[OF img_b_normalized] fp cap] by blast
qed

lemma img_tiny_normalized: "normalized img_tiny"
  by (simp add: normalized_def img_tiny_def ndim_def)

lemma img_32_normalized: "normalized img_32"
  by (simp add: normalized_def img_32_def ndim_def)

lemma header_zeros: "header_length (buffer world_zeros img_32) = 0"
proof -
  have "lsb_bytes 32 (replicate 96 0) = packbits (unpackbits (replicate 4 0))"
    by (simp add: lsb_bytes_def unpackbits_replicate_0)
  then show ?thesis
    by (simp add: header_length_def buffer_def world_zeros_def img_32_def packbits_unpackbits
                  from_bytes_big_def replicate_4)
qed

lemma header_ones: "header_length (buffer world_ones img_32) = 4294967295"
proof -
  have "lsb_bytes 32 (replicate 96 255) = packbits (unpackbits (replicate 4 255))"
    by (simp add: lsb_bytes_def unpackbits_replicate_255)
  then have "lsb_bytes 32 (replicate 96 255) = [255, 255, 255, 255]"
    by (simp add: packbits_unpackbits replicate_4)
  then show ?thesis
    by (simp add: header_length_def buffer_def world_ones_def img_32_def from_bytes_big_def)
qed

lemma decode_zeros: "decode_image stub_lib img_32 p world_zeros = Inr err_no_data"
  by (rule decode_image_cases(1)[OF ensure_normalized[OF img_32_normalized]])
     (simp add: header_zeros)

lemma decode_ones: "decode_image stub_lib img_32 p world_ones = Inr err_incomplete"
proof (rule decode_image_cases(2)[OF ensure_normalized[OF img_32_normalized]])
  show "0 < header_length (buffer world_ones img_32)" by (simp add: header_ones)
  show "(int (length (buffer world_ones img_32)) - 32) div 8 < header_length (buffer world_ones img_32)"
    by (simp add: header_ones) (simp add: buffer_def world_ones_def img_32_def)
qed

section \<open>The claims\<close>

text \<open>
  C1. Round trip: when the framed payload of a message exists and its bits fit the
  image (height x width x 3 samples), \<open>encode\<close> succeeds and \<open>decode_image\<close> with the
  same password returns the message. Fernet and the UTF-8 codec are taken with their
  round-trip contracts.
\<close>

theorem encode_decode_roundtrip:
  assumes "fernet_roundtrip L" and "utf8_roundtrip L"
      and "ensure_rgb_uint8 L img0 w = (Inr img, w1)" and "wf_ndarray w1 img"
      and "fst (full_payload L m p w1) = Inr full"
      and "8 * length full \<le> nd_size img"
  shows "\<exists>enc w'. encode L img0 m p w = (Inr enc, w') \<and> decode_image L enc p w' = Inr m"
proof -
  obtain w2 where fp: "full_payload L m p w1 = (Inr full, w2)"
    using assms(5) by (cases "full_payload L m p w1") simp
  from encode_success[OF assms(3) fp assms(6)] obtain enc w' where
    enc: "encode L img0 m p w = (Inr enc, w')" by blast
  from decode_encoded[OF assms(3,4) enc] obtain ep where
    ep: "fst (encrypt_message L m p w1) = Inr ep" and
    dec: "decode_image L enc p w' = Inr (decrypt_message L ep p w')" by blast
  show ?thesis
    using enc dec decrypt_encrypted[OF assms(1,2) ep, of w'] by simp
qed

theorem encode_decode_roundtrip_witness:
  "wf_ndarray world_a img_a \<and>
   (\<exists>full. fst (full_payload stub_lib msg_a pw_a world_a) = Inr full \<and>
           8 * length full \<le> nd_size img_a) \<and>
   (\<exists>enc w'. encode stub_lib img_a msg_a pw_a world_a = (Inr enc, w') \<and>
              decode_image stub_lib enc pw_a w' = Inr msg_a)"
proof -
  from payload_a obtain full where
    f: "fst (full_payload stub_lib msg_a pw_a world_a) = Inr full" and l: "length full = 69"
    by blast
  have cap: "8 * length full \<le> nd_size img_a" by (simp add: l img_a_size)
  show ?thesis
    using encode_decode_roundtrip[OF stub_fernet_roundtrip stub_utf8_roundtrip
                       ensure_normalized[OF img_a_normalized] img_a_wf f cap]
          img_a_wf f cap
    by blast
qed

text \<open>
  C2. Every failure of \<open>decode_image\<close> is a returned string, one of three by its
  cause: the no-data string for a length header that is not positive and for a wrong
  magic signature, the incomplete string for a length header beyond the capacity, and the
  password string for every failure inside \<open>decrypt_message\<close>.
\<close>

theorem decode_failure_strings:
  assumes "ensure_rgb_uint8 L img0 w = (Inr img, w1)"
  shows "(header_length (buffer w1 img) \<le> 0 \<longrightarrow> decode_image L img0 p w = Inr err_no_data) \<and>
         (0 < header_length (buffer w1 img) \<and>
          (int (length (buffer w1 img)) - 32) div 8 < header_length (buffer w1 img) \<longrightarrow>
            decode_image L img0 p w = Inr err_incomplete) \<and>
         (0 < header_length (buffer w1 img) \<and>
          header_length (buffer w1 img) \<le> (int (length (buffer w1 img)) - 32) div 8 \<and>
          take 4 (payload_bytes_of (buffer w1 img)) \<noteq> MAGIC_HEADER \<longrightarrow>
            decode_image L img0 p w = Inr err_no_data) \<and>
         (0 < header_length (buffer w1 img) \<and>
          header_length (buffer w1 img) \<le> (int (length (buffer w1 img)) - 32) div 8 \<and>
          take 4 (payload_bytes_of (buffer w1 img)) = MAGIC_HEADER \<longrightarrow>
            decode_image L img0 p w
              = Inr (decrypt_message L (drop 4 (payload_bytes_of (buffer w1 img))) p w1)) \<and>
         (\<forall>data u. decrypt_message L data p u = err_password \<or>
            (\<exists>key plain. 16 \<le> length data \<and> fst (derive_key L p (take 16 data) u) = Inr key \<and>
               lib_fernet_key_ok L key \<and> lib_fernet_decrypt L key (drop 16 data) = Some plain \<and>
               lib_utf8_decode L plain = Some (decrypt_message L data p u)))"
  using decode_image_cases[OF assms, of p] decrypt_message_cases[of L _ p]
  by blast

theorem decode_failure_strings_witness:
  "header_length (buffer world_zeros img_32) \<le> 0 \<and>
   decode_image stub_lib img_32 pw_a world_zeros = Inr err_no_data"
  using decode_failure_strings[OF ensure_normalized[OF img_32_normalized],
          where L = stub_lib and p = pw_a and w = world_zeros]
  by (simp add: header_zeros)

theorem decode_failure_strings_counterexample:
  "decode_image stub_lib img_32 pw_a world_zeros = Inr err_no_data \<and>
   decode_image stub_lib img_32 pw_a world_ones = Inr err_incomplete \<and>
   err_no_data \<noteq> err_incomplete"
  by (simp add: decode_zeros decode_ones err_strings_distinct)




text \<open>
  C4. On an image of at least 64 samples, a framed payload of exactly as many bits as
  the image has samples (or fewer) is encoded, and a longer one is refused with the
  message-too-large error, all buffers that existed before the call being unchanged.
\<close>

theorem capacity_boundary:
  assumes "ensure_rgb_uint8 L img0 w = (Inr img, w1)"
      and "fst (full_payload L m p w1) = Inr full"
      and "64 \<le> nd_size img"
  shows "(8 * length full \<le> nd_size img \<longrightarrow> (\<exists>enc w'. encode L img0 m p w = (Inr enc, w'))) \<and>
         (nd_size img < 8 * length full \<longrightarrow>
            fst (encode L img0 m p w) = Inl (MessageTooLarge (8 * length full) (nd_size img)) \<and>
            heap (snd (encode L img0 m p w)) = heap w1 \<and>
            take (length (heap w)) (heap (snd (encode L img0 m p w))) = heap w)"
proof -
  obtain w2 where fp: "full_payload L m p w1 = (Inr full, w2)"
    using assms(2) by (cases "full_payload L m p w1") simp
  have h2: "heap w2 = heap w1" using full_payload_heap[of L m p w1] fp by simp
  have pre: "take (length (heap w)) (heap w1) = heap w" using ensure_world[OF assms(1)] by simp
  have a: "\<exists>enc w'. encode L img0 m p w = (Inr enc, w')" if "8 * length full \<le> nd_size img"
    using encode_success[OF assms(1) fp that] by blast
  have b: "encode L img0 m p w = (Inl (MessageTooLarge (8 * length full) (nd_size img)), w2)"
    if "nd_size img < 8 * length full"
    using assms(1,3) fp that by (simp add: encode_def Let_def length_unpackbits)
  show ?thesis using a b h2 pre by simp
qed

theorem capacity_boundary_witness:
  "64 \<le> nd_size img_a \<and>
   (\<exists>full. fst (full_payload stub_lib msg_a pw_a world_a) = Inr full \<and>
      8 * length full = nd_size img_a) \<and>
   (\<exists>enc w'. encode stub_lib img_a msg_a pw_a world_a = (Inr enc, w')) \<and>
   64 \<le> nd_size img_32 \<and>
   fst (encode stub_lib img_32 msg_a pw_a world_zeros) = Inl (MessageTooLarge 552 96) \<and>
   heap (snd (encode stub_lib img_32 msg_a pw_a world_zeros)) = heap world_zeros"
proof -
  from payload_a obtain full where
    f: "fst (full_payload stub_lib msg_a pw_a world_a) = Inr full" and l: "length full = 69"
    by blast
  have s: "64 \<le> nd_size img_a" by (simp add: img_a_size)
  have eq: "8 * length full = nd_size img_a" by (simp add: l img_a_size)
  from payload_stub[OF stub_encode_pw_a, of world_zeros] obtain full' where
    f': "fst (full_payload stub_lib msg_a pw_a world_zeros) = Inr full'" and l': "length full' = 69"
    by blast
  have s': "nd_size img_32 = 96" by (simp add: img_32_def nd_size_def)
  have big: "64 \<le> nd_size img_32" by (simp add: s')
  from capacity_boundary[OF ensure_normalized[OF img_a_normalized] f s] eq
  have 1: "\<exists>enc w'. encode stub_lib img_a msg_a pw_a world_a = (Inr enc, w')" by simp
  from capacity_boundary[OF ensure_normalized[OF img_32_normalized] f' big]
  have 2: "fst (encode stub_lib img_32 msg_a pw_a world_zeros) = Inl (MessageTooLarge 552 96) \<and>
           heap (snd (encode stub_lib img_32 msg_a pw_a world_zeros)) = heap world_zeros"
    by (simp add: l' s')
  from 1 2 s f eq big show ?thesis by blast
qed

theorem capacity_boundary_counterexample:
  "(\<exists>full. fst (full_payload stub_lib msg_a pw_a world_tiny) = Inr full \<and>
      nd_size img_tiny < 8 * length full) \<and>
   fst (encode stub_lib img_tiny msg_a pw_a world_tiny) = Inl ImageTooSmall \<and>
   ImageTooSmall \<noteq> MessageTooLarge (8 * 69) (nd_size img_tiny)"
proof -
  have s: "nd_size img_tiny < 64" by (simp add: img_tiny_def nd_size_def)
  from payload_stub[OF stub_encode_pw_a, of world_tiny] s
  have "\<exists>full. fst (full_payload stub_lib msg_a pw_a world_tiny) = Inr full \<and>
      nd_size img_tiny < 8 * length full" by auto
  moreover
  have "encode stub_lib img_tiny msg_a pw_a world_tiny = (Inl ImageTooSmall, world_tiny)"
    using ensure_normalized[OF img_tiny_normalized, of stub_lib world_tiny] s
    by (simp add: encode_def)
  ultimately show ?thesis by simp
qed

text \<open>
  C5. After a successful \<open>encode\<close> the least significant bit of sample \<open>8 j + k\<close>
  is bit \<open>7 - k\<close> of byte \<open>j\<close> of the framed payload (most significant bit first),
  the upper seven bits of those samples are the original ones, and every later sample is
  the original one.
\<close>

theorem encode_writes_lsbs:
  assumes "ensure_rgb_uint8 L img0 w = (Inr img, w1)" and "wf_ndarray w1 img"
      and "encode L img0 m p w = (Inr enc, w')"
  shows "\<exists>full. fst (full_payload L m p w1) = Inr full \<and>
           length (buffer w' enc) = nd_size img \<and>
           (\<forall>j<length full. \<forall>k<8.
              bit (buffer w' enc ! (8 * j + k)) 0 = bit (full ! j) (7 - k)) \<and>
           (\<forall>i<8 * length full.
              buffer w' enc ! i AND 0xFE = buffer w1 img ! i AND 0xFE) \<and>
           (\<forall>i. 8 * length full \<le> i \<and> i < nd_size img \<longrightarrow>
              buffer w' enc ! i = buffer w1 img ! i)"
proof -
  from encode_Inr_result[OF assms(1,3)] obtain full where
    fp: "fst (full_payload L m p w1) = Inr full" and cap: "8 * length full \<le> nd_size img" and
    buf: "buffer w' enc = embed_bits (unpackbits full) (buffer w1 img)" by blast
  have len: "length (buffer w1 img) = nd_size img" using assms(2) by (simp add: wf_ndarray_def)
  have n: "length (unpackbits full) = 8 * length full" by (rule length_unpackbits)
  have le: "length (unpackbits full) \<le> length (buffer w1 img)" using cap by (simp add: n len)
  have a: "bit (buffer w' enc ! (8 * j + k)) 0 = bit (full ! j) (7 - k)"
    if "j < length full" "k < 8" for j k
  proof -
    have "8 * j + k < length (unpackbits full)" using that by (simp add: n)
    then show ?thesis
      using that le by (simp add: buf embed_bits_nth_lt unpackbits_nth bit0_embed)
  qed
  have b: "buffer w' enc ! i AND 0xFE = buffer w1 img ! i AND 0xFE" if "i < 8 * length full" for i
  proof -
    have i: "i < length (unpackbits full)" using that by (simp add: n)
    then have "unpackbits full ! i AND 1 = unpackbits full ! i"
      by (intro unpackbits_01[of _ full]) simp
    then show ?thesis
      using i le by (simp add: buf embed_bits_nth_lt hi_embed)
  qed
  have c: "buffer w' enc ! i = buffer w1 img ! i" if "8 * length full \<le> i \<and> i < nd_size img" for i
    using that le by (simp add: buf embed_bits_nth_ge n len)
  show ?thesis
    using fp a b c by (intro exI[of _ full]) (simp add: buf length_embed_bits len)
qed


theorem encode_writes_lsbs_witness:
  "\<exists>enc w' full. encode stub_lib img_b msg_a pw_a world_b = (Inr enc, w') \<and>
      fst (full_payload stub_lib msg_a pw_a world_b) = Inr full \<and>
      length (buffer w' enc) = nd_size img_b \<and>
      bit (buffer w' enc ! 3) 0 = bit (full ! 0) 4 \<and>
      buffer w' enc ! 3 AND 0xFE = buffer world_b img_b ! 3 AND 0xFE \<and>
      8 * length full \<le> 599 \<and> buffer w' enc ! 599 = buffer world_b img_b ! 599"
proof -
  from encode_b obtain enc w' where
    enc: "encode stub_lib img_b msg_a pw_a world_b = (Inr enc, w')" by blast
  from encode_writes_lsbs[OF ensure_normalized[OF img_b_normalized] img_b_wf enc]
  obtain full where
    f: "fst (full_payload stub_lib msg_a pw_a world_b) = Inr full" and
    l: "length (buffer w' enc) = nd_size img_b" and
    a: "\<forall>j<length full. \<forall>k<8. bit (buffer w' enc ! (8 * j + k)) 0 = bit (full ! j) (7 - k)" and
    b: "\<forall>i<8 * length full. buffer w' enc ! i AND 0xFE = buffer world_b img_b ! i AND 0xFE" and
    c: "\<forall>i. 8 * length full \<le> i \<and> i < nd_size img_b \<longrightarrow>
          buffer w' enc ! i = buffer world_b img_b ! i"
    by blast
  from payload_stub[OF stub_encode_pw_a, of world_b] f have lf: "length full = 69" by auto
  from a lf have "bit (buffer w' enc ! (8 * 0 + 3)) 0 = bit (full ! 0) (7 - 3)"
    by (intro a[rule_format]) simp_all
  moreover from b lf have "buffer w' enc ! 3 AND 0xFE = buffer world_b img_b ! 3 AND 0xFE"
    by simp
  moreover from c lf have "buffer w' enc ! 599 = buffer world_b img_b ! 599"
    by (simp add: img_b_size)
  ultimately show ?thesis using enc f l lf by auto
qed

text \<open>
  C6. An image that has fewer than 64 samples once normalized is refused with the
  too-small error whatever the message and the password are, and nothing has been done
  by then: the world is the one normalization left, and no entropy has been drawn.
\<close>

theorem too_small_rejected:
  assumes "ensure_rgb_uint8 L img0 w = (Inr img, w1)" and "nd_size img < 64"
  shows "encode L img0 m p w = (Inl ImageTooSmall, w1) \<and> rand w1 = rand w \<and>
         (normalized img0 \<longrightarrow> w1 = w)"
proof -
  have "encode L img0 m p w = (Inl ImageTooSmall, w1)"
    using assms by (simp add: encode_def)
  moreover have "rand w1 = rand w" using ensure_world[OF assms(1)] by simp
  moreover have "normalized img0 \<longrightarrow> w1 = w"
    using assms(1) by (auto dest: ensure_normalized[of img0 L w])
  ultimately show ?thesis by simp
qed

theorem too_small_rejected_witness:
  "nd_size img_tiny < 64 \<and>
   encode stub_lib img_tiny msg_a pw_a world_tiny = (Inl ImageTooSmall, world_tiny)"
proof -
  have s: "nd_size img_tiny < 64" by (simp add: img_tiny_def nd_size_def)
  from too_small_rejected[OF ensure_normalized[OF img_tiny_normalized] s] s
  show ?thesis by simp
qed

text \<open>
  C7. After a successful \<open>encode\<close> the bytes read from the least significant bits of
  the image are a 4-byte header, the magic signature \<open>STG1\<close>, the 16-byte salt and
  the token, and the header, read big-endian, is \<open>4 + 16 + len(token)\<close>.
\<close>

theorem payload_layout:
  assumes "ensure_rgb_uint8 L img0 w = (Inr img, w1)" and "wf_ndarray w1 img"
      and "encode L img0 m p w = (Inr enc, w')"
  shows "\<exists>hdr salt token key data.
           lsb_bytes (8 * (4 + (4 + 16 + length token))) (buffer w' enc)
             = hdr @ MAGIC_HEADER @ salt @ token \<and>
           lsb_bytes 32 (buffer w' enc) = hdr \<and>
           length hdr = 4 \<and> from_bytes_big hdr = 4 + 16 + int (length token) \<and>
           MAGIC_HEADER = [0x53, 0x54, 0x47, 0x31] \<and>
           salt = fst (os_urandom 16 w1) \<and> length salt = 16 \<and>
           fst (derive_key L p salt (snd (os_urandom 16 w1))) = Inr key \<and>
           lib_utf8_encode L m = Some data \<and>
           token = fst (fernet_encrypt L key data (snd (os_urandom 16 w1)))"
proof -
  from encode_Inr_result[OF assms(1,3)] obtain full where
    fp: "fst (full_payload L m p w1) = Inr full" and cap: "8 * length full \<le> nd_size img" and
    buf: "buffer w' enc = embed_bits (unpackbits full) (buffer w1 img)" by blast
  from full_payload_Inr[OF fp] obtain ep hdr where
    ep: "fst (encrypt_message L m p w1) = Inr ep" and
    hdr: "to_bytes4_big (length (MAGIC_HEADER @ ep)) = Inr hdr" and
    full: "full = hdr @ MAGIC_HEADER @ ep" by blast
  from encrypt_message_Inr[OF ep, where w' = "snd (os_urandom 16 w1)"] obtain key data token where
    k: "fst (derive_key L p (fst (os_urandom 16 w1)) (snd (os_urandom 16 w1))) = Inr key" and
    d: "lib_utf8_encode L m = Some data" and
    t: "token = fst (fernet_encrypt L key data (snd (os_urandom 16 w1)))" and
    e: "ep = fst (os_urandom 16 w1) @ token" by blast
  have lh: "length hdr = 4" using to_bytes4_big_Inr[OF hdr] by simp
  have len: "length (buffer w1 img) = nd_size img" using assms(2) by (simp add: wf_ndarray_def)
  have le: "length (unpackbits full) \<le> length (buffer w1 img)"
    using cap by (simp add: length_unpackbits len)
  have lfull: "length full = 4 + (4 + 16 + length token)"
    by (simp add: full e lh length_MAGIC os_urandom_simps)
  have 1: "lsb_bytes (8 * (4 + (4 + 16 + length token))) (buffer w' enc) = full"
    unfolding buf lfull[symmetric] by (rule lsb_bytes_embed[OF le])
  have "lsb_bytes (8 * length hdr) (buffer w' enc) = hdr"
    unfolding buf full by (rule lsb_bytes_embed_prefix[OF le[unfolded full]])
  then have 2: "lsb_bytes 32 (buffer w' enc) = hdr" by (simp add: lh)
  have 3: "from_bytes_big hdr = 4 + 16 + int (length token)"
    using from_bytes_to_bytes[OF hdr] by (simp add: e length_MAGIC os_urandom_simps)
  have 4: "MAGIC_HEADER = [0x53, 0x54, 0x47, 0x31]"
    by (simp add: MAGIC_HEADER_def bytes_lit_def)
  show ?thesis
    using 1 2 3 lh k d t unfolding full e
    by (intro exI[of _ hdr] exI[of _ "fst (os_urandom 16 w1)"] exI[of _ token]
              exI[of _ key] exI[of _ data])
       (simp add: os_urandom_simps 4[symmetric])
qed

theorem payload_layout_witness:
  "\<exists>enc w' hdr salt token.
      encode stub_lib img_a msg_a pw_a world_a = (Inr enc, w') \<and>
      lsb_bytes (8 * (4 + (4 + 16 + length token))) (buffer w' enc)
        = hdr @ MAGIC_HEADER @ salt @ token \<and>
      length salt = 16 \<and> from_bytes_big hdr = 4 + 16 + int (length token)"
proof -
  from encode_a obtain enc w' where
    enc: "encode stub_lib img_a msg_a pw_a world_a = (Inr enc, w')" by blast
  from payload_layout[OF ensure_normalized[OF img_a_normalized] img_a_wf enc] enc
  show ?thesis by blast
qed


text \<open>
  C8. \<open>derive_key\<close> is a function of the password and the salt alone: it leaves the
  world as it found it (no entropy drawn, no clock read, no buffer written) and what it
  returns is the same in every world. For a password that UTF-8 can encode that is the
  URL-safe base64 text, 44 bytes long, of the 32 bytes PBKDF2 derives from the encoded
  password and the salt in 100000 iterations; for any other password it is
  \<open>UnicodeEncodeError\<close>.
\<close>

theorem derive_key_result:
  "snd (derive_key L p salt w) = w \<and>
   fst (derive_key L p salt w') = fst (derive_key L p salt w) \<and>
   (lib_utf8_encode L p = None \<longrightarrow> fst (derive_key L p salt w) = Inl UnicodeEncodeError) \<and>
   (\<forall>pw. pbkdf2_length_ok L \<and> lib_utf8_encode L p = Some pw \<longrightarrow>
      (\<exists>raw key. raw = lib_pbkdf2_hmac_sha256 L 32 salt 100000 pw \<and> length raw = 32 \<and>
         key = urlsafe_b64encode raw \<and> length key = 44 \<and>
         derive_key L p salt w = (Inr key, w)))"
proof -
  have 1: "snd (derive_key L p salt w) = w" by (rule derive_key_world)
  have 2: "fst (derive_key L p salt w') = fst (derive_key L p salt w)" by (rule derive_key_indep)
  have 3: "fst (derive_key L p salt w) = Inl UnicodeEncodeError" if "lib_utf8_encode L p = None"
    using that by (simp add: derive_key_fst)
  have 4: "length (lib_pbkdf2_hmac_sha256 L 32 salt 100000 pw) = 32 \<and>
           length (urlsafe_b64encode (lib_pbkdf2_hmac_sha256 L 32 salt 100000 pw)) = 44 \<and>
           derive_key L p salt w
             = (Inr (urlsafe_b64encode (lib_pbkdf2_hmac_sha256 L 32 salt 100000 pw)), w)"
    if "pbkdf2_length_ok L \<and> lib_utf8_encode L p = Some pw" for pw
  proof -
    have l: "length (lib_pbkdf2_hmac_sha256 L 32 salt 100000 pw) = 32"
      using that by (simp add: pbkdf2_length_ok_def)
    have "derive_key L p salt w
            = (Inr (urlsafe_b64encode (lib_pbkdf2_hmac_sha256 L 32 salt 100000 pw)), w)"
      using that by (simp add: derive_key_def)
    with l show ?thesis by (simp add: length_urlsafe_b64encode)
  qed
  show ?thesis using 1 2 3 4 by simp
qed

theorem derive_key_result_witness:
  "lib_utf8_encode stub_lib pw_a = Some [112, 119] \<and>
   snd (derive_key stub_lib pw_a (replicate 16 0) world_a) = world_a \<and>
   fst (derive_key stub_lib pw_a (replicate 16 0) world_b)
     = fst (derive_key stub_lib pw_a (replicate 16 0) world_a) \<and>
   derive_key stub_lib pw_a (replicate 16 0) world_a
     = (Inr (urlsafe_b64encode (lib_pbkdf2_hmac_sha256 stub_lib 32 (replicate 16 0) 100000 [112, 119])),
        world_a) \<and>
   length (urlsafe_b64encode (lib_pbkdf2_hmac_sha256 stub_lib 32 (replicate 16 0) 100000 [112, 119])) = 44"
proof -
  have e: "lib_utf8_encode stub_lib pw_a = Some [112, 119]"
    by (simp add: stub_lib_def stub_encode_pw_a)
  from derive_key_result[of stub_lib pw_a "replicate 16 0" world_a world_b] e stub_pbkdf2_length
  show ?thesis by simp
qed

theorem derive_key_result_counterexample:
  "\<not> isl (fst (derive_key stub_lib pw_a (replicate 16 0) world_a)) \<and>
   length (projr (fst (derive_key stub_lib pw_a (replicate 16 0) world_a))) = 44"
  by (simp add: derive_key_stub_a length_urlsafe_b64encode length_stub_pbkdf2)

text \<open>
  C9. \<open>encode\<close> changes no buffer that existed before the call, whatever its outcome:
  the caller's samples are what they were, and the array it returns on success views a
  buffer allocated during the call.
\<close>

theorem encode_leaves_input:
  assumes "encode L img0 m p w = (r, w')"
  shows "take (length (heap w)) (heap w') = heap w \<and>
         (nd_base img0 < length (heap w) \<longrightarrow> buffer w' img0 = buffer w img0) \<and>
         (\<forall>enc. r = Inr enc \<longrightarrow> length (heap w) \<le> nd_base enc \<and> nd_base enc < length (heap w'))"
proof -
  obtain r0 w1 where e: "ensure_rgb_uint8 L img0 w = (r0, w1)" by (metis surj_pair)
  have pre: "take (length (heap w)) (heap w1) = heap w" using ensure_world[OF e] by simp
  have le: "length (heap w) \<le> length (heap w1)" by (rule take_prefix_length[OF pre]) simp
  from encode_world[OF e assms]
  have 1: "take (length (heap w)) (heap w') = heap w \<and>
           (\<forall>enc. r = Inr enc \<longrightarrow> length (heap w) \<le> nd_base enc \<and> nd_base enc < length (heap w'))"
    using pre le by auto
  then have "nd_base img0 < length (heap w) \<Longrightarrow> heap w' ! nd_base img0 = heap w ! nd_base img0"
    by (metis nth_take)
  with 1 show ?thesis by (simp add: buffer_def)
qed

theorem encode_leaves_input_witness:
  "\<exists>enc w'. encode stub_lib img_a msg_a pw_a world_a = (Inr enc, w') \<and>
      nd_base img_a < length (heap world_a) \<and>
      buffer w' img_a = buffer world_a img_a \<and>
      length (heap world_a) \<le> nd_base enc \<and> nd_base enc < length (heap w')"
proof -
  from encode_a obtain enc w' where
    enc: "encode stub_lib img_a msg_a pw_a world_a = (Inr enc, w')" by blast
  have "nd_base img_a < length (heap world_a)" by (simp add: img_a_def world_a_def)
  with encode_leaves_input[OF enc] enc show ?thesis by blast
qed

text \<open>
  C10. \<open>decode_image\<close> returns a string for every image that passes normalization and
  every password; on an image of fewer than 32 samples the string is one of the two
  framing errors.
\<close>

theorem decode_image_total:
  assumes "ensure_rgb_uint8 L img0 w = (Inr img, w1)"
  shows "(\<exists>s. decode_image L img0 p w = Inr s) \<and>
         (length (buffer w1 img) < 32 \<longrightarrow>
            decode_image L img0 p w = Inr err_no_data \<or>
            decode_image L img0 p w = Inr err_incomplete)"
proof -
  have 1: "\<exists>s. decode_image L img0 p w = Inr s"
    using assms by (simp add: decode_image_def Let_def)
  have 2: "decode_image L img0 p w = Inr err_no_data \<or> decode_image L img0 p w = Inr err_incomplete"
    if "length (buffer w1 img) < 32"
  proof -
    have "(int (length (buffer w1 img)) - 32) div 8 < 0" using that by simp
    then show ?thesis
      using assms by (simp add: decode_image_def Let_def)
  qed
  from 1 2 show ?thesis by blast
qed

theorem decode_image_total_witness:
  "length (buffer world_tiny img_tiny) < 32 \<and>
   (\<exists>s. decode_image stub_lib img_tiny pw_a world_tiny = Inr s)"
proof -
  have "length (buffer world_tiny img_tiny) < 32"
    by (simp add: buffer_def world_tiny_def img_tiny_def)
  with decode_image_total[OF ensure_normalized[OF img_tiny_normalized], where p = pw_a and L = stub_lib]
  show ?thesis by blast
qed

end
